theory Spec2Isabelle
  imports Complex_Main
begin

section \<open>Frame extraction over an external decoder (\<^verbatim>\<open>video_utils.py\<close>)\<close>

text \<open>
  The module is a layer of glue over three libraries: the binding that runs the external
  decoder, the regular-expression module and the array library. The code of the module
  is embedded as it is written; what the libraries do is written out next to it:
  \<^item> the decoder and the probe are parameters of the model (the record \<open>env\<close>): what
    the process writes to its two pipes, and whether it exits with status 0;
  \<^item> byte strings and texts are \<open>char list\<close>s (a \<open>char\<close> is one byte); the three
    patterns of the module are embedded as matchers that follow the leftmost and greedy
    discipline of the backtracking matcher, over ASCII digits;
  \<^item> a Python float is the real number it denotes; \<open>float\<close> on a text and the
    generator of random numbers are parameters of \<open>env\<close>;
  \<^item> an array is its shape and its flat contents, one byte per \<open>uint8\<close> element;
  \<^item> every exception is a value of \<open>error\<close>.
\<close>

subsection \<open>Errors\<close>

datatype error =
    ValueError | KeyError | TypeError | IndexError | NameError | AttributeError
  | UnicodeDecodeError | FFmpegError

type_synonym bytes = string

subsection \<open>Arrays: \<^verbatim>\<open>np.frombuffer(out, np.uint8)\<close> and \<^verbatim>\<open>reshape\<close>\<close>

record ndarray =
  shape :: "nat list"
  data :: bytes

definition frombuffer :: "bytes \<Rightarrow> ndarray" where
  "frombuffer out = \<lparr>shape = [length out], data = out\<rparr>"

definition size_of :: "ndarray \<Rightarrow> nat" where
  "size_of a = length (data a)"

text \<open>
  \<^verbatim>\<open>reshape\<close> takes the new shape as integers. One entry may be \<open>-1\<close>: it is then
  inferred from the size and the other entries, which fails when their product is 0 or
  does not divide the size. Without such an entry the product of the entries must be the
  size. Every failure is a \<^verbatim>\<open>ValueError\<close>.
\<close>

definition reshape :: "ndarray \<Rightarrow> int list \<Rightarrow> error + ndarray" where
  "reshape a newshape =
     (let n = int (length (data a));
          unknown = filter (\<lambda>d. d < 0) newshape;
          known = prod_list (filter (\<lambda>d. 0 \<le> d) newshape)
      in if list_ex (\<lambda>d. d < - 1) newshape then Inl ValueError
         else if 1 < length unknown then Inl ValueError
         else if unknown = [] then
           (if known = n then Inr \<lparr>shape = map nat newshape, data = data a\<rparr>
            else Inl ValueError)
         else if known = 0 \<or> n mod known \<noteq> 0 then Inl ValueError
         else Inr \<lparr>shape = map (\<lambda>d. if d < 0 then nat (n div known) else nat d) newshape,
                   data = data a\<rparr>)"

subsection \<open>The patterns\<close>

definition is_digit :: "char \<Rightarrow> bool" where
  "is_digit c = (c \<in> set ''0123456789'')"

definition newline :: char where
  "newline = CHR 0x0A"

fun strip_prefix :: "string \<Rightarrow> string \<Rightarrow> string option" where
  "strip_prefix [] s = Some s"
| "strip_prefix (p # ps) [] = None"
| "strip_prefix (p # ps) (c # cs) = (if p = c then strip_prefix ps cs else None)"

text \<open>
  \<^verbatim>\<open>, (\d*)x(\d*),\<close> at the head of a text. Both runs of digits are maximal: the
  character after each is fixed by the pattern and is no digit, so giving a digit back
  never helps.
\<close>

definition size_tail :: "string \<Rightarrow> (string \<times> string) option" where
  "size_tail s =
     (case strip_prefix '', '' s of
        None \<Rightarrow> None
      | Some r1 \<Rightarrow>
          (case dropWhile is_digit r1 of
             [] \<Rightarrow> None
           | c # r2 \<Rightarrow>
               if c \<noteq> CHR ''x'' then None
               else (case dropWhile is_digit r2 of
                       [] \<Rightarrow> None
                     | c' # r3 \<Rightarrow>
                         if c' = CHR '','' then Some (takeWhile is_digit r1, takeWhile is_digit r2)
                         else None)))"

text \<open>
  \<^verbatim>\<open>.*\<close> followed by the tail: \<^verbatim>\<open>.\<close> matches every character but the line feed,
  and \<^verbatim>\<open>.*\<close> is greedy, so the longest stretch after which the tail matches wins.
\<close>

fun greedy_tail :: "string \<Rightarrow> (string \<times> string) option" where
  "greedy_tail [] = size_tail []"
| "greedy_tail (c # cs) =
     (if c = newline then size_tail (c # cs)
      else (case greedy_tail cs of
              Some g \<Rightarrow> Some g
            | None \<Rightarrow> size_tail (c # cs)))"

text \<open>
  \<^verbatim>\<open>re.search(r"Video:.*, (\d*)x(\d*),", text)\<close>: the match that starts leftmost;
  the result is \<^verbatim>\<open>.groups()\<close> of it, \<open>None\<close> when there is no match.
\<close>

fun search_video :: "string \<Rightarrow> (string \<times> string) option" where
  "search_video [] = None"
| "search_video (c # cs) =
     (case strip_prefix ''Video:'' (c # cs) of
        None \<Rightarrow> search_video cs
      | Some r \<Rightarrow>
          (case greedy_tail r of
             Some g \<Rightarrow> Some g
           | None \<Rightarrow> search_video cs))"




text \<open>
  \<^verbatim>\<open>pts_time:([\d.]+) \<close> at the head of a byte string: the group and what follows the
  match. The class excludes the space, so the run is maximal.
\<close>

definition is_digit_or_dot :: "char \<Rightarrow> bool" where
  "is_digit_or_dot c = (is_digit c \<or> c = CHR ''.'')"

definition pts_group_at :: "bytes \<Rightarrow> (bytes \<times> bytes) option" where
  "pts_group_at s =
     (case strip_prefix ''pts_time:'' s of
        None \<Rightarrow> None
      | Some r \<Rightarrow>
          (let g = takeWhile is_digit_or_dot r in
           case dropWhile is_digit_or_dot r of
             [] \<Rightarrow> None
           | c # rest \<Rightarrow> if g \<noteq> [] \<and> c = CHR '' '' then Some (g, rest) else None))"


lemma strip_prefix_append: "strip_prefix p s = Some r \<Longrightarrow> s = p @ r"
  by (induction p s rule: strip_prefix.induct) (auto split: if_splits)

lemma pts_group_at_shorter: "pts_group_at s = Some (g, rest) \<Longrightarrow> length rest < length s"
proof -
  assume a: "pts_group_at s = Some (g, rest)"
  then obtain r where r: "strip_prefix ''pts_time:'' s = Some r"
    by (auto simp: pts_group_at_def split: option.splits)
  from a r obtain c where "dropWhile is_digit_or_dot r = c # rest"
    by (auto simp: pts_group_at_def Let_def split: list.splits if_splits)
  then have "length rest < length r"
    using length_dropWhile_le [of is_digit_or_dot r] by simp
  moreover have "length r \<le> length s"
    using strip_prefix_append [OF r] by simp
  ultimately show ?thesis by simp
qed


text \<open>
  \<^verbatim>\<open>re.finditer\<close>: the matches from left to right, each search resuming where the
  last match ended. A match of either pattern holds the nine characters of
  \<^verbatim>\<open>pts_time:\<close>, so it is never empty. The first function lists
  \<^verbatim>\<open>match.group(1)\<close> of each match of \<^verbatim>\<open>pts_time:([\d.]+) \<close>, the second
  \<^verbatim>\<open>entry.group()[len("pts_time:"):]\<close> of each match of \<^verbatim>\<open>pts_time:\d*.\d*\<close>.
\<close>

function finditer_groups :: "bytes \<Rightarrow> bytes list" where
  "finditer_groups s =
     (if s = [] then []
      else (case pts_group_at s of
              Some (g, rest) \<Rightarrow> g # finditer_groups rest
            | None \<Rightarrow> finditer_groups (tl s)))"
  by pat_completeness auto
termination
  by (relation "measure length") (auto dest: pts_group_at_shorter)


declare finditer_groups.simps [simp del]

subsection \<open>The external decoder\<close>

text \<open>
  A command is what the module hands to the binding: the input file with its options,
  the output with its options. The decoder is a function from the command to what the
  process does. \<^verbatim>\<open>run\<close> waits for the process, raises the binding's error when the
  exit status is not 0, and returns the two captured pipes, \<open>None\<close> for a pipe that
  was not captured. \<^verbatim>\<open>run_async\<close> only starts the process.
\<close>

datatype sink = Null_sink | Raw_video_pipe

record command =
  cmd_file :: string
  cmd_ss :: "real option"
  cmd_t :: "real option"
  cmd_vsync :: "int option"
  cmd_hide_banner :: bool
  cmd_loglevel :: "string option"
  cmd_output :: sink
  cmd_vf_showinfo :: bool
  cmd_vframes :: "nat option"

record process =
  exit_ok :: bool
  stdout :: bytes
  stderr :: bytes

text \<open>
  One stream of the probe's report. The probe leaves out what it does not know, so every
  entry is optional, and reading a missing one is a \<^verbatim>\<open>KeyError\<close>. The sizes are
  numbers, the duration is a text, the tags map texts to texts.
\<close>

record stream =
  stream_codec_type :: "string option"
  stream_width :: "nat option"
  stream_height :: "nat option"
  stream_duration :: "string option"
  stream_tags :: "(string \<rightharpoonup> string) option"

text \<open>
  The state of the random generator is the sequence of the numbers it will return.
\<close>

type_synonym rng = "nat \<Rightarrow> real"

record env =
  probe :: "string \<Rightarrow> stream list option"
  decoder :: "command \<Rightarrow> process"
  py_float :: "string \<Rightarrow> real option"
  utf8 :: "bytes \<Rightarrow> string option"
  seeded :: "nat \<Rightarrow> rng"

definition run :: "env \<Rightarrow> command \<Rightarrow> bool \<Rightarrow> bool \<Rightarrow> error + (bytes option \<times> bytes option)" where
  "run env cmd capture_stdout capture_stderr =
     (let p = decoder env cmd
      in if exit_ok p
         then Inr (if capture_stdout then Some (stdout p) else None,
                   if capture_stderr then Some (stderr p) else None)
         else Inl FFmpegError)"

text \<open>
  \<^verbatim>\<open>next((stream for stream in probe["streams"] if stream["codec_type"] == "video"), None)\<close>
\<close>

fun first_video :: "stream list \<Rightarrow> error + stream option" where
  "first_video [] = Inr None"
| "first_video (s # ss) =
     (case stream_codec_type s of
        None \<Rightarrow> Inl KeyError
      | Some ty \<Rightarrow> if ty = ''video'' then Inr (Some s) else first_video ss)"

text \<open>\<^verbatim>\<open>[float(x) for x in xs]\<close>: the first text that is no float raises.\<close>

fun float_list :: "env \<Rightarrow> string list \<Rightarrow> real list option" where
  "float_list env [] = Some []"
| "float_list env (x # xs) =
     (case py_float env x of
        None \<Rightarrow> None
      | Some r \<Rightarrow> (case float_list env xs of None \<Rightarrow> None | Some rs \<Rightarrow> Some (r # rs)))"

subsection \<open>\<^verbatim>\<open>get_frame\<close>\<close>



text \<open>
  The decoder processes a function starts are recorded as calls: the command and the two
  capture flags.
\<close>

datatype call = Run command bool bool | Run_async command bool bool


subsection \<open>\<^verbatim>\<open>get_all_frames_ffmpeg\<close>\<close>

definition showinfo_command :: "string \<Rightarrow> int \<Rightarrow> sink \<Rightarrow> command" where
  "showinfo_command file vsync out =
     \<lparr>cmd_file = file, cmd_ss = None, cmd_t = None, cmd_vsync = Some vsync,
      cmd_hide_banner = True, cmd_loglevel = None, cmd_output = out,
      cmd_vf_showinfo = True, cmd_vframes = None\<rparr>"



subsection \<open>\<^verbatim>\<open>iter_all_frames_ffmpeg\<close>\<close>

text \<open>
  One turn of the loop of lines 67 to 72 on what is left of the pipe. The pipe is
  buffered: \<^verbatim>\<open>read(n)\<close> returns \<open>n\<close> bytes, or all that is left once the process
  has written less. A step yields a frame and leaves the rest of the pipe, stops, or
  raises.
\<close>

datatype step = Yield ndarray bytes | Stop | Raise error

definition next_frame :: "nat \<Rightarrow> nat \<Rightarrow> bytes \<Rightarrow> step" where
  "next_frame width height pipe =
     (let in_bytes = take (width * height * 3) pipe
      in if in_bytes = [] then Stop
         else (case reshape (frombuffer in_bytes) [int height, int width, 3] of
                 Inl x \<Rightarrow> Raise x
               | Inr frame \<Rightarrow> Yield frame (drop (width * height * 3) pipe)))"

lemma next_frame_shorter: "next_frame w h pipe = Yield frame rest \<Longrightarrow> length rest < length pipe"
  by (cases "w * h * 3 = 0"; cases pipe)
     (auto simp: next_frame_def Let_def split: if_splits sum.splits)

text \<open>
  The generator run to exhaustion: the frames it yields, and the exception that ends
  it, if one does.
\<close>

function read_frames :: "nat \<Rightarrow> nat \<Rightarrow> bytes \<Rightarrow> ndarray list \<times> error option" where
  "read_frames width height pipe =
     (case next_frame width height pipe of
        Stop \<Rightarrow> ([], None)
      | Raise x \<Rightarrow> ([], Some x)
      | Yield frame rest \<Rightarrow>
          (case read_frames width height rest of (frames, r) \<Rightarrow> (frame # frames, r)))"
  by pat_completeness auto
termination
  by (relation "measure (\<lambda>(w, h, pipe). length pipe)") (auto dest: next_frame_shorter)

declare read_frames.simps [simp del]

definition raw_video_command :: "string \<Rightarrow> int \<Rightarrow> string option \<Rightarrow> command" where
  "raw_video_command file vsync loglevel =
     \<lparr>cmd_file = file, cmd_ss = None, cmd_t = None, cmd_vsync = Some vsync,
      cmd_hide_banner = True, cmd_loglevel = loglevel, cmd_output = Raw_video_pipe,
      cmd_vf_showinfo = False, cmd_vframes = None\<rparr>"


subsection \<open>The class \<^verbatim>\<open>CatVideo\<close>\<close>

record CatVideo =
  "file" :: string
  width :: nat
  height :: nat
  duration :: real
  vsync :: int
  loglevel :: string
  pts_list :: "real list option"

text \<open>
  A method returns its outcome (the value, or the exception it raises), the object as
  the call leaves it, and the calls it made, in order.
\<close>

text \<open>Lines 84 to 86: the two sizes, swapped for a stream rotated by a quarter turn.\<close>

definition rotated :: "stream \<Rightarrow> bool" where
  "rotated video_stream =
     (case stream_tags video_stream of
        None \<Rightarrow> False
      | Some tags \<Rightarrow>
          (case tags ''rotate'' of
             None \<Rightarrow> False
           | Some r \<Rightarrow> r = ''90'' \<or> r = ''270''))"

definition init :: "env \<Rightarrow> string \<Rightarrow> int \<Rightarrow> string \<Rightarrow> error + CatVideo" where
  "init env f vs ll =
     (case probe env f of
        None \<Rightarrow> Inl FFmpegError
      | Some streams \<Rightarrow>
          (case first_video streams of
             Inl x \<Rightarrow> Inl x
           | Inr None \<Rightarrow> Inl ValueError
           | Inr (Some video_stream) \<Rightarrow>
               (case stream_width video_stream of
                  None \<Rightarrow> Inl KeyError
                | Some w \<Rightarrow>
                    (case stream_height video_stream of
                       None \<Rightarrow> Inl KeyError
                     | Some h \<Rightarrow>
                         (case stream_duration video_stream of
                            None \<Rightarrow> Inl KeyError
                          | Some d \<Rightarrow>
                              (case py_float env d of
                                 None \<Rightarrow> Inl ValueError
                               | Some dur \<Rightarrow>
                                   Inr \<lparr>file = f,
                                        width = (if rotated video_stream then h else w),
                                        height = (if rotated video_stream then w else h),
                                        duration = dur, vsync = vs, loglevel = ll,
                                        pts_list = None\<rparr>))))))"

definition set_pts_list :: "env \<Rightarrow> CatVideo \<Rightarrow> (error + unit) \<times> CatVideo \<times> call list" where
  "set_pts_list env self =
     (let cmd = showinfo_command (file self) (vsync self) Null_sink;
          calls = [Run cmd False True]
      in case run env cmd False True of
           Inl x \<Rightarrow> (Inl x, self, calls)
         | Inr (out, err) \<Rightarrow>
             (case err of
                None \<Rightarrow> (Inl TypeError, self, calls)
              | Some e \<Rightarrow>
                  (case float_list env (finditer_groups e) of
                     None \<Rightarrow> (Inl ValueError, self, calls)
                   | Some ts \<Rightarrow> (Inr (), self\<lparr>pts_list := Some ts\<rparr>, calls))))"

definition seek_command :: "string \<Rightarrow> real \<Rightarrow> string \<Rightarrow> command" where
  "seek_command f frame_time ll =
     \<lparr>cmd_file = f, cmd_ss = Some frame_time, cmd_t = Some (1 / 10), cmd_vsync = None,
      cmd_hide_banner = False, cmd_loglevel = Some ll, cmd_output = Raw_video_pipe,
      cmd_vf_showinfo = False, cmd_vframes = Some 1\<rparr>"

definition get_frame_time ::
  "env \<Rightarrow> CatVideo \<Rightarrow> real \<Rightarrow> (error + ndarray) \<times> CatVideo \<times> call list" where
  "get_frame_time env self frame_time =
     (let cmd = seek_command (file self) frame_time (loglevel self);
          calls = [Run cmd True False]
      in case run env cmd True False of
           Inl x \<Rightarrow> (Inl x, self, calls)
         | Inr (out, err) \<Rightarrow>
             (case out of
                None \<Rightarrow> (Inl TypeError, self, calls)
              | Some b \<Rightarrow>
                  (let raw_image = frombuffer b
                   in if size_of raw_image = 0 then (Inl ValueError, self, calls)
                      else (reshape raw_image [int (height self), int (width self), 3],
                            self, calls))))"

text \<open>
  \<^verbatim>\<open>self.pts_list[frame]\<close>: an index below 0 counts from the end, and an index out of
  range is an \<^verbatim>\<open>IndexError\<close>.
\<close>

definition py_index :: "'a list \<Rightarrow> int \<Rightarrow> error + 'a" where
  "py_index ts frame =
     (if frame < - int (length ts) \<or> int (length ts) \<le> frame then Inl IndexError
      else if frame < 0 then Inr (ts ! nat (int (length ts) + frame))
      else Inr (ts ! nat frame))"

definition get_frame_num ::
  "env \<Rightarrow> CatVideo \<Rightarrow> int \<Rightarrow> (error + ndarray) \<times> CatVideo \<times> call list" where
  "get_frame_num env self frame =
     (case (if pts_list self = None then set_pts_list env self else (Inr (), self, [])) of
        (Inl x, self1, calls1) \<Rightarrow> (Inl x, self1, calls1)
      | (Inr u, self1, calls1) \<Rightarrow>
          (case pts_list self1 of
             None \<Rightarrow> (Inl TypeError, self1, calls1)
           | Some ts \<Rightarrow>
               (case py_index ts frame of
                  Inl x \<Rightarrow> (Inl x, self1, calls1)
                | Inr frame_time \<Rightarrow>
                    (case get_frame_time env self1 frame_time of
                       (r, self2, calls2) \<Rightarrow> (r, self2, calls1 @ calls2)))))"

text \<open>
  \<^verbatim>\<open>iter_all_frames\<close> run to exhaustion: the frames it yields, then the outcome. After
  the loop, with \<^verbatim>\<open>pts_list\<close> still \<open>None\<close> and at least one match in the error
  pipe, line 119 iterates over \<^verbatim>\<open>match_list\<close>, a name that nothing binds: the
  comprehension raises \<^verbatim>\<open>NameError\<close> before line 120 can assign.
\<close>

definition iter_all_frames ::
  "env \<Rightarrow> CatVideo \<Rightarrow> ndarray list \<times> (error + unit) \<times> CatVideo \<times> call list" where
  "iter_all_frames env self =
     (let cmd = raw_video_command (file self) (vsync self) (Some (loglevel self));
          pipe_stderr = (pts_list self = None);
          calls = [Run_async cmd True pipe_stderr];
          p = decoder env cmd
      in case read_frames (width self) (height self) (stdout p) of
           (frames, Some x) \<Rightarrow> (frames, Inl x, self, calls)
         | (frames, None) \<Rightarrow>
             if pts_list self = None then
               (case (if pipe_stderr then Some (stderr p) else None) of
                  None \<Rightarrow> (frames, Inr (), self, calls)
                | Some err \<Rightarrow>
                    (let pts_found = finditer_groups err
                     in if 0 < length pts_found then (frames, Inl NameError, self, calls)
                        else (frames, Inr (), self, calls)))
             else (frames, Inr (), self, calls))"

text \<open>
  The loop of \<^verbatim>\<open>get_random_frame\<close>: a \<^verbatim>\<open>ValueError\<close> of \<^verbatim>\<open>get_frame_time\<close> is
  swallowed and the next number drawn; any other exception leaves the loop. Nothing
  bounds the number of turns, so the result is \<open>None\<close> when the loop never ends.
\<close>

partial_function (option) random_loop ::
  "env \<Rightarrow> CatVideo \<Rightarrow> rng \<Rightarrow> call list
     \<Rightarrow> ((error + real \<times> ndarray) \<times> CatVideo \<times> rng \<times> call list) option" where
  "random_loop env self g calls =
     (let frame_time = g 0 * duration self; g' = (\<lambda>n. g (Suc n))
      in case get_frame_time env self frame_time of
           (Inl x, self', c) \<Rightarrow>
             if x = ValueError then random_loop env self' g' (calls @ c)
             else Some (Inl x, self', g', calls @ c)
         | (Inr frame, self', c) \<Rightarrow> Some (Inr (frame_time, frame), self', g', calls @ c))"


subsection \<open>A sample decoder\<close>

text \<open>
  An environment to run the definitions on: the probe reports the given streams for
  every file, and every process exits with status 0 after writing the given bytes to its
  two pipes. Its \<^verbatim>\<open>float\<close> knows three texts, and its random generator returns
  one half for ever.
\<close>

definition sample_float :: "string \<Rightarrow> real option" where
  "sample_float s =
     (if s = ''0.5'' then Some (1 / 2)
      else if s = ''2'' then Some 2
      else if s = ''0'' then Some 0
      else None)"

definition sample_env :: "stream list \<Rightarrow> bytes \<Rightarrow> bytes \<Rightarrow> env" where
  "sample_env streams out err =
     \<lparr>probe = (\<lambda>f. Some streams),
      decoder = (\<lambda>cmd. \<lparr>exit_ok = True, stdout = out, stderr = err\<rparr>),
      py_float = sample_float,
      utf8 = Some,
      seeded = (\<lambda>s n. 1 / 2)\<rparr>"

definition sample_stream :: "string option \<Rightarrow> stream" where
  "sample_stream d =
     \<lparr>stream_codec_type = Some ''video'', stream_width = Some 1, stream_height = Some 1,
      stream_duration = d, stream_tags = None\<rparr>"

definition sample_video :: "real \<Rightarrow> CatVideo" where
  "sample_video d =
     \<lparr>file = ''cat.mp4'', width = 1, height = 1, duration = d, vsync = 0,
      loglevel = ''error'', pts_list = None\<rparr>"

section \<open>Properties\<close>

subsection \<open>Arrays\<close>

lemma size_of_frombuffer: "size_of (frombuffer b) = length b"
  by (simp add: size_of_def frombuffer_def)

lemma reshape_frame:
  "reshape (frombuffer b) [int h, int w, 3] =
     (if length b = h * w * 3 then Inr \<lparr>shape = [h, w, 3], data = b\<rparr> else Inl ValueError)"
proof -
  have "int h * (int w * 3) = int (h * w * 3)"
    by simp
  then have "(int h * (int w * 3) = int (length b)) = (length b = h * w * 3)"
    by (metis of_nat_eq_iff)
  then show ?thesis
    by (simp add: reshape_def frombuffer_def)
qed

lemmas sample_defs = sample_env_def sample_video_def sample_stream_def sample_float_def

lemmas array_eval = reshape_def frombuffer_def size_of_def

subsection \<open>\<^verbatim>\<open>get_frame_time\<close>\<close>

lemma get_frame_time_object: "fst (snd (get_frame_time env self t)) = self"
  by (simp add: get_frame_time_def Let_def split: sum.splits option.splits prod.splits)

lemma get_frame_time_calls:
  "snd (snd (get_frame_time env self t)) =
     [Run (seek_command (file self) t (loglevel self)) True False]"
  by (simp add: get_frame_time_def Let_def split: sum.splits option.splits prod.splits)

text \<open>
  C9, as amended. When the decoder exits with status 0, \<^verbatim>\<open>get_frame_time\<close> raises
  \<^verbatim>\<open>ValueError\<close> exactly when the output is empty or its length is not
  \<open>height * width * 3\<close>: the first by the test of line 137, the second by the reshape
  of line 141. Otherwise it returns the array of shape \<open>(height, width, 3)\<close> whose
  contents are the output bytes. In every case the object is left as it was, and one
  decoder process was run, with its standard output captured.
\<close>

theorem get_frame_time_outcome:
  assumes "decoder env (seek_command (file self) t (loglevel self)) = p"
    and "exit_ok p"
  shows "get_frame_time env self t =
           (if stdout p = [] \<or> length (stdout p) \<noteq> height self * width self * 3
            then Inl ValueError
            else Inr \<lparr>shape = [height self, width self, 3], data = stdout p\<rparr>,
            self, [Run (seek_command (file self) t (loglevel self)) True False])"
  using assms
  by (simp add: get_frame_time_def run_def Let_def reshape_frame size_of_frombuffer)

theorem get_frame_time_outcome_witness:
  "decoder (sample_env [] ''abc'' []) (seek_command (file (sample_video 2)) 0
       (loglevel (sample_video 2))) = \<lparr>exit_ok = True, stdout = ''abc'', stderr = []\<rparr>
   \<and> exit_ok \<lparr>exit_ok = True, stdout = ''abc'', stderr = []\<rparr>
   \<and> get_frame_time (sample_env [] ''abc'' []) (sample_video 2) 0 =
       (Inr \<lparr>shape = [1, 1, 3], data = ''abc''\<rparr>, sample_video 2,
        [Run (seek_command ''cat.mp4'' 0 ''error'') True False])"
proof -
  have h1: "decoder (sample_env [] ''abc'' []) (seek_command (file (sample_video 2)) 0
       (loglevel (sample_video 2))) = \<lparr>exit_ok = True, stdout = ''abc'', stderr = []\<rparr>"
    by (simp add: sample_env_def)
  have h2: "exit_ok \<lparr>exit_ok = True, stdout = ''abc'', stderr = []\<rparr>"
    by simp
  show ?thesis
    using h1 h2 get_frame_time_outcome [OF h1 h2]
    by (simp add: sample_video_def)
qed

text \<open>
  The claim as stated fails: on an output of one byte for a frame of three, the output
  is not empty and the call raises \<^verbatim>\<open>ValueError\<close>.
\<close>

theorem get_frame_time_counterexample:
  "stdout (decoder (sample_env [] ''a'' []) (seek_command (file (sample_video 2)) 0
       (loglevel (sample_video 2)))) = ''a''
   \<and> fst (get_frame_time (sample_env [] ''a'' []) (sample_video 2) 0) = Inl ValueError"
  by (simp add: get_frame_time_def run_def Let_def sample_defs array_eval)

subsection \<open>\<^verbatim>\<open>get_frame\<close>\<close>

lemma size_tail_digits:
  "size_tail s = Some (ws, hs) \<Longrightarrow> list_all is_digit ws \<and> list_all is_digit hs"
  by (auto simp: size_tail_def list_all_iff
      split: option.splits list.splits if_splits dest: set_takeWhileD)



lemma strip_prefix_iff: "strip_prefix p s = Some r \<longleftrightarrow> s = p @ r"
  by (induction p s rule: strip_prefix.induct) auto

lemma not_digit_x: "\<not> is_digit CHR ''x''" and not_digit_comma: "\<not> is_digit CHR '',''"
  by (simp_all add: is_digit_def)

lemma size_tail_iff:
  "size_tail s = Some (ws, hs) \<longleftrightarrow>
     list_all is_digit ws \<and> list_all is_digit hs
     \<and> (\<exists>post. s = '', '' @ ws @ ''x'' @ hs @ '','' @ post)"
proof
  assume a: "size_tail s = Some (ws, hs)"
  then obtain r1 where r1: "strip_prefix '', '' s = Some r1"
    by (auto simp: size_tail_def split: option.splits)
  from a r1 obtain r2 where r2: "dropWhile is_digit r1 = CHR ''x'' # r2"
    by (auto simp: size_tail_def split: list.splits if_splits)
  from a r1 r2 obtain r3 where r3: "dropWhile is_digit r2 = CHR '','' # r3"
    by (auto simp: size_tail_def split: list.splits if_splits)
  from a r1 r2 r3 have w: "ws = takeWhile is_digit r1" and h: "hs = takeWhile is_digit r2"
    by (auto simp: size_tail_def)
  have "r1 = ws @ CHR ''x'' # r2"
    using takeWhile_dropWhile_id [of is_digit r1] r2 w by simp
  moreover have "r2 = hs @ CHR '','' # r3"
    using takeWhile_dropWhile_id [of is_digit r2] r3 h by simp
  moreover have "s = '', '' @ r1"
    using r1 by (simp only: strip_prefix_iff)
  ultimately have "s = '', '' @ ws @ ''x'' @ hs @ '','' @ r3"
    by simp
  moreover have "list_all is_digit ws" "list_all is_digit hs"
    using a by (auto dest: size_tail_digits)
  ultimately show "list_all is_digit ws \<and> list_all is_digit hs
     \<and> (\<exists>post. s = '', '' @ ws @ ''x'' @ hs @ '','' @ post)"
    by blast
next
  assume "list_all is_digit ws \<and> list_all is_digit hs
     \<and> (\<exists>post. s = '', '' @ ws @ ''x'' @ hs @ '','' @ post)"
  then obtain post where dw: "\<And>c. c \<in> set ws \<Longrightarrow> is_digit c"
    and dh: "\<And>c. c \<in> set hs \<Longrightarrow> is_digit c"
    and s: "s = '', '' @ ws @ ''x'' @ hs @ '','' @ post"
    by (auto simp: list_all_iff)
  let ?r2 = "hs @ CHR '','' # post"
  let ?r1 = "ws @ CHR ''x'' # ?r2"
  have p: "strip_prefix '', '' s = Some ?r1"
    unfolding strip_prefix_iff using s by simp
  have d1: "dropWhile is_digit ?r1 = CHR ''x'' # ?r2" "takeWhile is_digit ?r1 = ws"
    using dw by (simp_all add: dropWhile_append2 takeWhile_append2 not_digit_x)
  have d2: "dropWhile is_digit ?r2 = CHR '','' # post" "takeWhile is_digit ?r2 = hs"
    using dh by (simp_all add: dropWhile_append2 takeWhile_append2 not_digit_comma)
  show "size_tail s = Some (ws, hs)"
    unfolding size_tail_def by (simp only: p d1 d2 option.case list.case) simp
qed

lemma greedy_tail_None_iff:
  "greedy_tail r = None \<longleftrightarrow>
     (\<forall>mid rest. r = mid @ rest \<and> newline \<notin> set mid \<longrightarrow> size_tail rest = None)"
proof (induction r)
  case Nil
  then show ?case by simp
next
  case (Cons c cs)
  show ?case
  proof (cases "c = newline")
    case True
    have "(\<forall>mid rest. c # cs = mid @ rest \<and> newline \<notin> set mid \<longrightarrow> size_tail rest = None)
            \<longleftrightarrow> size_tail (c # cs) = None"
    proof
      assume "\<forall>mid rest. c # cs = mid @ rest \<and> newline \<notin> set mid \<longrightarrow> size_tail rest = None"
      then have "c # cs = [] @ (c # cs) \<and> newline \<notin> set [] \<longrightarrow> size_tail (c # cs) = None"
        by blast
      then show "size_tail (c # cs) = None"
        by simp
    next
      assume n: "size_tail (c # cs) = None"
      show "\<forall>mid rest. c # cs = mid @ rest \<and> newline \<notin> set mid \<longrightarrow> size_tail rest = None"
      proof (intro allI impI)
        fix mid rest
        assume a: "c # cs = mid @ rest \<and> newline \<notin> set mid"
        show "size_tail rest = None"
        proof (cases mid)
          case Nil
          with a n show ?thesis by simp
        next
          case (Cons m ms)
          with a True show ?thesis by auto
        qed
      qed
    qed
    with True show ?thesis by simp
  next
    case False
    have "(\<forall>mid rest. c # cs = mid @ rest \<and> newline \<notin> set mid \<longrightarrow> size_tail rest = None)
            \<longleftrightarrow> size_tail (c # cs) = None
                \<and> (\<forall>mid rest. cs = mid @ rest \<and> newline \<notin> set mid \<longrightarrow> size_tail rest = None)"
    proof
      assume all: "\<forall>mid rest. c # cs = mid @ rest \<and> newline \<notin> set mid \<longrightarrow> size_tail rest = None"
      then have "c # cs = [] @ (c # cs) \<and> newline \<notin> set [] \<longrightarrow> size_tail (c # cs) = None"
        by blast
      then have h: "size_tail (c # cs) = None"
        by simp
      have "\<forall>mid rest. cs = mid @ rest \<and> newline \<notin> set mid \<longrightarrow> size_tail rest = None"
      proof (intro allI impI)
        fix mid rest
        assume "cs = mid @ rest \<and> newline \<notin> set mid"
        then have "c # cs = (c # mid) @ rest \<and> newline \<notin> set (c # mid)"
          using False by auto
        with all show "size_tail rest = None"
          by blast
      qed
      with h show "size_tail (c # cs) = None
                \<and> (\<forall>mid rest. cs = mid @ rest \<and> newline \<notin> set mid \<longrightarrow> size_tail rest = None)"
        by blast
    next
      assume b: "size_tail (c # cs) = None
                \<and> (\<forall>mid rest. cs = mid @ rest \<and> newline \<notin> set mid \<longrightarrow> size_tail rest = None)"
      show "\<forall>mid rest. c # cs = mid @ rest \<and> newline \<notin> set mid \<longrightarrow> size_tail rest = None"
      proof (intro allI impI)
        fix mid rest
        assume a: "c # cs = mid @ rest \<and> newline \<notin> set mid"
        show "size_tail rest = None"
        proof (cases mid)
          case Nil
          with a b show ?thesis by simp
        next
          case (Cons m ms)
          with a have "cs = ms @ rest \<and> newline \<notin> set ms"
            by simp
          with b show ?thesis by blast
        qed
      qed
    qed
    with False Cons.IH show ?thesis
      by (auto split: option.splits)
  qed
qed

lemma greedy_tail_Some:
  "greedy_tail r = Some g \<Longrightarrow>
     \<exists>mid rest. r = mid @ rest \<and> newline \<notin> set mid \<and> size_tail rest = Some g
       \<and> (\<forall>mid' rest'. r = mid' @ rest' \<and> newline \<notin> set mid' \<and> length mid < length mid'
             \<longrightarrow> size_tail rest' = None)"
proof (induction r)
  case Nil
  then show ?case by auto
next
  case (Cons c cs)
  show ?case
  proof (cases "c \<noteq> newline \<and> greedy_tail cs \<noteq> None")
    case True
    with Cons.prems have "greedy_tail cs = Some g"
      by auto
    from Cons.IH [OF this] obtain mid rest where
      m: "cs = mid @ rest" "newline \<notin> set mid" "size_tail rest = Some g"
      and longest: "\<forall>mid' rest'. cs = mid' @ rest' \<and> newline \<notin> set mid' \<and> length mid < length mid'
             \<longrightarrow> size_tail rest' = None"
      by blast
    have l2: "\<forall>mid' rest'. c # cs = mid' @ rest' \<and> newline \<notin> set mid' \<and> length (c # mid) < length mid'
             \<longrightarrow> size_tail rest' = None"
    proof (intro allI impI)
      fix mid' rest'
      assume a: "c # cs = mid' @ rest' \<and> newline \<notin> set mid' \<and> length (c # mid) < length mid'"
      then obtain m' where m': "mid' = c # m'" "cs = m' @ rest'"
        by (cases mid') auto
      with a have "cs = m' @ rest' \<and> newline \<notin> set m' \<and> length mid < length m'"
        by simp
      with longest show "size_tail rest' = None"
        by blast
    qed
    have "c # cs = (c # mid) @ rest \<and> newline \<notin> set (c # mid) \<and> size_tail rest = Some g"
      using m True by auto
    with l2 show ?thesis
      by blast
  next
    case False
    with Cons.prems have here: "size_tail (c # cs) = Some g"
      by (auto split: if_splits option.splits)
    have "\<forall>mid' rest'. c # cs = mid' @ rest' \<and> newline \<notin> set mid' \<and> length ([] :: string) < length mid'
             \<longrightarrow> size_tail rest' = None"
    proof (intro allI impI)
      fix mid' rest'
      assume a: "c # cs = mid' @ rest' \<and> newline \<notin> set mid' \<and> length ([] :: string) < length mid'"
      then obtain m' where m': "mid' = c # m'" "cs = m' @ rest'"
        by (auto simp: Cons_eq_append_conv)
      with a have cn: "c \<noteq> newline" and "newline \<notin> set m'"
        by auto
      with False have "greedy_tail cs = None"
        by (cases "greedy_tail cs") auto
      then have "\<forall>mid rest. cs = mid @ rest \<and> newline \<notin> set mid \<longrightarrow> size_tail rest = None"
        by (simp only: greedy_tail_None_iff)
      with m' \<open>newline \<notin> set m'\<close> show "size_tail rest' = None"
        by blast
    qed
    moreover have "c # cs = [] @ (c # cs) \<and> newline \<notin> set ([] :: string)"
      by simp
    ultimately show ?thesis
      using here by blast
  qed
qed

lemma search_video_None_iff:
  "search_video s = None \<longleftrightarrow>
     (\<forall>pre r. s = pre @ ''Video:'' @ r \<longrightarrow> greedy_tail r = None)"
proof (induction s)
  case Nil
  then show ?case by simp
next
  case (Cons c cs)
  let ?here = "\<forall>r. c # cs = ''Video:'' @ r \<longrightarrow> greedy_tail r = None"
  let ?later = "\<forall>pre r. cs = pre @ ''Video:'' @ r \<longrightarrow> greedy_tail r = None"
  have split: "(\<forall>pre r. c # cs = pre @ ''Video:'' @ r \<longrightarrow> greedy_tail r = None)
     \<longleftrightarrow> ?here \<and> ?later"
  proof
    assume all: "\<forall>pre r. c # cs = pre @ ''Video:'' @ r \<longrightarrow> greedy_tail r = None"
    have "?here"
    proof (intro allI impI)
      fix r assume "c # cs = ''Video:'' @ r"
      then have "c # cs = [] @ ''Video:'' @ r"
        by (simp only: append_Nil)
      with all show "greedy_tail r = None"
        by blast
    qed
    moreover have "?later"
    proof (intro allI impI)
      fix pre r assume "cs = pre @ ''Video:'' @ r"
      then have "c # cs = (c # pre) @ ''Video:'' @ r"
        by (simp only: append_Cons)
      with all show "greedy_tail r = None"
        by blast
    qed
    ultimately show "?here \<and> ?later" ..
  next
    assume b: "?here \<and> ?later"
    show "\<forall>pre r. c # cs = pre @ ''Video:'' @ r \<longrightarrow> greedy_tail r = None"
    proof (intro allI impI)
      fix pre r assume a: "c # cs = pre @ ''Video:'' @ r"
      show "greedy_tail r = None"
      proof (cases pre)
        case Nil
        with a have "c # cs = ''Video:'' @ r"
          by (simp only: append_Nil)
        with b show ?thesis by blast
      next
        case (Cons c' p')
        with a have "cs = p' @ ''Video:'' @ r"
          by (simp only: append_Cons list.inject)
        with b show ?thesis by blast
      qed
    qed
  qed
  show ?case
  proof (cases "strip_prefix ''Video:'' (c # cs)")
    case None
    then have h: "?here"
      by (metis option.distinct(1) strip_prefix_iff)
    have sv: "search_video (c # cs) = search_video cs"
      using None by (simp only: search_video.simps option.case)
    show ?thesis
      unfolding sv split using h Cons.IH by blast
  next
    case (Some r0)
    then have r0: "c # cs = ''Video:'' @ r0"
      by (simp only: strip_prefix_iff)
    have h: "?here \<longleftrightarrow> greedy_tail r0 = None"
      using r0 by (metis same_append_eq)
    have sv: "search_video (c # cs) =
                (case greedy_tail r0 of Some g \<Rightarrow> Some g | None \<Rightarrow> search_video cs)"
      using Some by (simp only: search_video.simps option.case)
    show ?thesis
      unfolding sv split h using Cons.IH by (cases "greedy_tail r0") simp_all
  qed
qed

lemma search_video_Some:
  "search_video s = Some g \<Longrightarrow>
     \<exists>pre r. s = pre @ ''Video:'' @ r \<and> greedy_tail r = Some g
       \<and> (\<forall>pre' r'. s = pre' @ ''Video:'' @ r' \<and> length pre' < length pre
             \<longrightarrow> greedy_tail r' = None)"
proof (induction s)
  case Nil
  then show ?case by simp
next
  case (Cons c cs)
  show ?case
  proof (cases "\<exists>r0. strip_prefix ''Video:'' (c # cs) = Some r0 \<and> greedy_tail r0 \<noteq> None")
    case True
    then obtain r0 where r0: "strip_prefix ''Video:'' (c # cs) = Some r0"
      and g0: "greedy_tail r0 \<noteq> None"
      by blast
    have "search_video (c # cs) =
                (case greedy_tail r0 of Some g \<Rightarrow> Some g | None \<Rightarrow> search_video cs)"
      using r0 by (simp only: search_video.simps option.case)
    with g0 Cons.prems have "greedy_tail r0 = Some g"
      by (cases "greedy_tail r0") simp_all
    moreover have "c # cs = [] @ ''Video:'' @ r0"
      using r0 by (simp only: strip_prefix_iff append_Nil)
    moreover have "\<forall>pre' r'. c # cs = pre' @ ''Video:'' @ r' \<and> length pre' < length ([] :: string)
             \<longrightarrow> greedy_tail r' = None"
      by simp
    ultimately show ?thesis
      by blast
  next
    case False
    then have here: "\<forall>r. c # cs = ''Video:'' @ r \<longrightarrow> greedy_tail r = None"
      by (metis strip_prefix_iff)
    have "search_video (c # cs) = search_video cs"
    proof (cases "strip_prefix ''Video:'' (c # cs)")
      case None
      then show ?thesis
        by (simp only: search_video.simps option.case)
    next
      case (Some r0)
      with False have "greedy_tail r0 = None"
        by blast
      with Some show ?thesis
        by (simp only: search_video.simps option.case)
    qed
    with Cons.prems have "search_video cs = Some g"
      by simp
    from Cons.IH [OF this] obtain pre r where
      p: "cs = pre @ ''Video:'' @ r" "greedy_tail r = Some g"
      and first: "\<forall>pre' r'. cs = pre' @ ''Video:'' @ r' \<and> length pre' < length pre
             \<longrightarrow> greedy_tail r' = None"
      by blast
    have f2: "\<forall>pre' r'. c # cs = pre' @ ''Video:'' @ r' \<and> length pre' < length (c # pre)
             \<longrightarrow> greedy_tail r' = None"
    proof (intro allI impI)
      fix pre' r'
      assume a: "c # cs = pre' @ ''Video:'' @ r' \<and> length pre' < length (c # pre)"
      show "greedy_tail r' = None"
      proof (cases pre')
        case Nil
        with a have "c # cs = ''Video:'' @ r'"
          by (simp only: append_Nil)
        with here show ?thesis by blast
      next
        case (Cons c' p')
        with a have "cs = p' @ ''Video:'' @ r' \<and> length p' < length pre"
          by simp
        with first show ?thesis by blast
      qed
    qed
    have "c # cs = (c # pre) @ ''Video:'' @ r"
      using p(1) by (simp only: append_Cons)
    with p(2) f2 show ?thesis
      by blast
  qed
qed

text \<open>
  The matcher against the pattern read as a set of texts. A match of
  \<^verbatim>\<open>Video:.*, (\d*)x(\d*),\<close> is a stretch \<^verbatim>\<open>Video:\<close>, then characters other than the
  line feed, then a comma and a space, digits, \<^verbatim>\<open>x\<close>, digits and a comma.
  \<open>search_video\<close> finds nothing exactly when the text holds no match; what it finds
  are the two runs of digits of a match that starts where the first \<^verbatim>\<open>Video:\<close> that
  opens a match stands.
\<close>

lemma search_video_no_match:
  "search_video s = None \<longleftrightarrow>
     \<not> (\<exists>pre mid ws hs post.
          s = pre @ ''Video:'' @ mid @ '', '' @ ws @ ''x'' @ hs @ '','' @ post
          \<and> newline \<notin> set mid \<and> list_all is_digit ws \<and> list_all is_digit hs)"
proof
  assume n: "search_video s = None"
  show "\<not> (\<exists>pre mid ws hs post.
          s = pre @ ''Video:'' @ mid @ '', '' @ ws @ ''x'' @ hs @ '','' @ post
          \<and> newline \<notin> set mid \<and> list_all is_digit ws \<and> list_all is_digit hs)"
  proof
    assume "\<exists>pre mid ws hs post.
          s = pre @ ''Video:'' @ mid @ '', '' @ ws @ ''x'' @ hs @ '','' @ post
          \<and> newline \<notin> set mid \<and> list_all is_digit ws \<and> list_all is_digit hs"
    then obtain pre mid ws hs post where
      s: "s = pre @ ''Video:'' @ mid @ '', '' @ ws @ ''x'' @ hs @ '','' @ post"
      and m: "newline \<notin> set mid" and d: "list_all is_digit ws" "list_all is_digit hs"
      by blast
    let ?rest = "'', '' @ ws @ ''x'' @ hs @ '','' @ post"
    have t: "size_tail ?rest = Some (ws, hs)"
      using d by (simp only: size_tail_iff) auto
    from n have "\<forall>pre r. s = pre @ ''Video:'' @ r \<longrightarrow> greedy_tail r = None"
      by (simp only: search_video_None_iff)
    with s have "greedy_tail (mid @ ?rest) = None"
      by blast
    then have "\<forall>m r. mid @ ?rest = m @ r \<and> newline \<notin> set m \<longrightarrow> size_tail r = None"
      by (simp only: greedy_tail_None_iff)
    with m have "size_tail ?rest = None"
      by blast
    with t show False
      by simp
  qed
next
  assume no: "\<not> (\<exists>pre mid ws hs post.
          s = pre @ ''Video:'' @ mid @ '', '' @ ws @ ''x'' @ hs @ '','' @ post
          \<and> newline \<notin> set mid \<and> list_all is_digit ws \<and> list_all is_digit hs)"
  show "search_video s = None"
  proof (cases "search_video s")
    case None
    then show ?thesis .
  next
    case (Some g)
    obtain ws hs where g: "g = (ws, hs)"
      by (cases g)
    from search_video_Some [OF Some] obtain pre r where
      s: "s = pre @ ''Video:'' @ r" and gt: "greedy_tail r = Some (ws, hs)"
      using g by blast
    from greedy_tail_Some [OF gt] obtain mid rest where
      r: "r = mid @ rest" and m: "newline \<notin> set mid" and t: "size_tail rest = Some (ws, hs)"
      by blast
    from t obtain post where
      "rest = '', '' @ ws @ ''x'' @ hs @ '','' @ post"
      "list_all is_digit ws" "list_all is_digit hs"
      by (simp only: size_tail_iff) blast
    with s r m have "\<exists>pre mid ws hs post.
          s = pre @ ''Video:'' @ mid @ '', '' @ ws @ ''x'' @ hs @ '','' @ post
          \<and> newline \<notin> set mid \<and> list_all is_digit ws \<and> list_all is_digit hs"
      by blast
    with no show ?thesis
      by blast
  qed
qed

lemma search_video_first_match:
  assumes "search_video s = Some (ws, hs)"
  shows "\<exists>pre mid post.
           s = pre @ ''Video:'' @ mid @ '', '' @ ws @ ''x'' @ hs @ '','' @ post
           \<and> newline \<notin> set mid \<and> list_all is_digit ws \<and> list_all is_digit hs
           \<and> (\<forall>pre' mid' ws' hs' post'.
                 s = pre' @ ''Video:'' @ mid' @ '', '' @ ws' @ ''x'' @ hs' @ '','' @ post'
                 \<and> newline \<notin> set mid' \<and> list_all is_digit ws' \<and> list_all is_digit hs'
                 \<longrightarrow> length pre \<le> length pre')
           \<and> (\<forall>mid' ws' hs' post'.
                 s = pre @ ''Video:'' @ mid' @ '', '' @ ws' @ ''x'' @ hs' @ '','' @ post'
                 \<and> newline \<notin> set mid' \<and> list_all is_digit ws' \<and> list_all is_digit hs'
                 \<longrightarrow> length mid' \<le> length mid)"
proof -
  from search_video_Some [OF assms] obtain pre r where
    s: "s = pre @ ''Video:'' @ r" and gt: "greedy_tail r = Some (ws, hs)"
    and first: "\<forall>pre' r'. s = pre' @ ''Video:'' @ r' \<and> length pre' < length pre
             \<longrightarrow> greedy_tail r' = None"
    by blast
  from greedy_tail_Some [OF gt] obtain mid rest where
    r: "r = mid @ rest" and m: "newline \<notin> set mid" and t: "size_tail rest = Some (ws, hs)"
    and longest: "\<forall>mid' rest'. r = mid' @ rest' \<and> newline \<notin> set mid' \<and> length mid < length mid'
             \<longrightarrow> size_tail rest' = None"
    by blast
  from t have "list_all is_digit ws \<and> list_all is_digit hs
     \<and> (\<exists>post. rest = '', '' @ ws @ ''x'' @ hs @ '','' @ post)"
    by (simp only: size_tail_iff)
  then obtain post where
    rest: "rest = '', '' @ ws @ ''x'' @ hs @ '','' @ post"
    and d: "list_all is_digit ws" "list_all is_digit hs"
    by blast
  have tail: "\<And>ws' hs' post'. list_all is_digit ws' \<Longrightarrow> list_all is_digit hs'
      \<Longrightarrow> size_tail ('', '' @ ws' @ ''x'' @ hs' @ '','' @ post') = Some (ws', hs')"
    by (simp only: size_tail_iff) auto
  have f2: "\<forall>pre' mid' ws' hs' post'.
                 s = pre' @ ''Video:'' @ mid' @ '', '' @ ws' @ ''x'' @ hs' @ '','' @ post'
                 \<and> newline \<notin> set mid' \<and> list_all is_digit ws' \<and> list_all is_digit hs'
                 \<longrightarrow> length pre \<le> length pre'"
  proof (intro allI impI)
    fix pre' mid' ws' hs' post'
    let ?tail = "'', '' @ ws' @ ''x'' @ hs' @ '','' @ post'"
    assume a: "s = pre' @ ''Video:'' @ mid' @ ?tail
                 \<and> newline \<notin> set mid' \<and> list_all is_digit ws' \<and> list_all is_digit hs'"
    show "length pre \<le> length pre'"
    proof (rule ccontr)
      assume "\<not> length pre \<le> length pre'"
      then have "length pre' < length pre"
        by simp
      with a first have "greedy_tail (mid' @ ?tail) = None"
        by blast
      then have "\<forall>mm rr. mid' @ ?tail = mm @ rr \<and> newline \<notin> set mm \<longrightarrow> size_tail rr = None"
        by (simp only: greedy_tail_None_iff)
      with a have "size_tail ?tail = None"
        by blast
      moreover have "size_tail ?tail = Some (ws', hs')"
        using a by (intro tail) blast+
      ultimately show False
        by simp
    qed
  qed
  have g2: "\<forall>mid' ws' hs' post'.
                 s = pre @ ''Video:'' @ mid' @ '', '' @ ws' @ ''x'' @ hs' @ '','' @ post'
                 \<and> newline \<notin> set mid' \<and> list_all is_digit ws' \<and> list_all is_digit hs'
                 \<longrightarrow> length mid' \<le> length mid"
  proof (intro allI impI)
    fix mid' ws' hs' post'
    let ?tail = "'', '' @ ws' @ ''x'' @ hs' @ '','' @ post'"
    assume a: "s = pre @ ''Video:'' @ mid' @ ?tail
                 \<and> newline \<notin> set mid' \<and> list_all is_digit ws' \<and> list_all is_digit hs'"
    then have "pre @ ''Video:'' @ r = pre @ ''Video:'' @ mid' @ ?tail"
      using s by simp
    then have rr: "r = mid' @ ?tail"
      by (simp only: same_append_eq)
    show "length mid' \<le> length mid"
    proof (rule ccontr)
      assume "\<not> length mid' \<le> length mid"
      then have "length mid < length mid'"
        by simp
      with longest rr a have "size_tail ?tail = None"
        by blast
      moreover have "size_tail ?tail = Some (ws', hs')"
        using a by (intro tail) blast+
      ultimately show False
        by simp
    qed
  qed
  have "s = pre @ ''Video:'' @ mid @ '', '' @ ws @ ''x'' @ hs @ '','' @ post"
    using s r rest by simp
  with m d f2 g2 show ?thesis
    by blast
qed

lemma search_video_of_first_match:
  assumes s: "s = pre @ ''Video:'' @ mid @ '', '' @ ws @ ''x'' @ hs @ '','' @ post"
    and m: "newline \<notin> set mid"
    and d: "list_all is_digit ws" "list_all is_digit hs"
    and first: "\<forall>pre' mid' ws' hs' post'.
                 s = pre' @ ''Video:'' @ mid' @ '', '' @ ws' @ ''x'' @ hs' @ '','' @ post'
                 \<and> newline \<notin> set mid' \<and> list_all is_digit ws' \<and> list_all is_digit hs'
                 \<longrightarrow> length pre \<le> length pre'"
    and longest: "\<forall>mid' ws' hs' post'.
                 s = pre @ ''Video:'' @ mid' @ '', '' @ ws' @ ''x'' @ hs' @ '','' @ post'
                 \<and> newline \<notin> set mid' \<and> list_all is_digit ws' \<and> list_all is_digit hs'
                 \<longrightarrow> length mid' \<le> length mid"
  shows "search_video s = Some (ws, hs)"
proof -
  have "search_video s \<noteq> None"
    using s m d by (simp only: search_video_no_match) blast
  then obtain ws2 hs2 where found: "search_video s = Some (ws2, hs2)"
    by (cases "search_video s") auto
  from search_video_first_match [OF found] obtain pre2 mid2 post2 where
    s2: "s = pre2 @ ''Video:'' @ mid2 @ '', '' @ ws2 @ ''x'' @ hs2 @ '','' @ post2"
    and m2: "newline \<notin> set mid2"
    and d2: "list_all is_digit ws2" "list_all is_digit hs2"
    and first2: "\<forall>pre' mid' ws' hs' post'.
                 s = pre' @ ''Video:'' @ mid' @ '', '' @ ws' @ ''x'' @ hs' @ '','' @ post'
                 \<and> newline \<notin> set mid' \<and> list_all is_digit ws' \<and> list_all is_digit hs'
                 \<longrightarrow> length pre2 \<le> length pre'"
    and longest2: "\<forall>mid' ws' hs' post'.
                 s = pre2 @ ''Video:'' @ mid' @ '', '' @ ws' @ ''x'' @ hs' @ '','' @ post'
                 \<and> newline \<notin> set mid' \<and> list_all is_digit ws' \<and> list_all is_digit hs'
                 \<longrightarrow> length mid' \<le> length mid2"
    by blast
  let ?tail = "'', '' @ ws @ ''x'' @ hs @ '','' @ post"
  let ?tail2 = "'', '' @ ws2 @ ''x'' @ hs2 @ '','' @ post2"
  have "length pre \<le> length pre2"
    using first s2 m2 d2 by blast
  moreover have "length pre2 \<le> length pre"
    using first2 s m d by blast
  ultimately have lp: "length pre = length pre2"
    by simp
  have e1: "pre @ (''Video:'' @ mid @ ?tail) = pre2 @ (''Video:'' @ mid2 @ ?tail2)"
    using s s2 by simp
  from lp e1 have p: "pre = pre2" and e2: "''Video:'' @ mid @ ?tail = ''Video:'' @ mid2 @ ?tail2"
    by (metis append_eq_append_conv)+
  from e2 have e3: "mid @ ?tail = mid2 @ ?tail2"
    by (simp only: same_append_eq)
  have "length mid2 \<le> length mid"
    using longest s2 m2 d2 p by blast
  moreover have "length mid \<le> length mid2"
    using longest2 s m d p by blast
  ultimately have lm: "length mid = length mid2"
    by simp
  from lm e3 have e4: "?tail = ?tail2"
    by (metis append_eq_append_conv)
  have "size_tail ?tail = Some (ws, hs)"
    using d by (simp only: size_tail_iff) auto
  moreover have "size_tail ?tail2 = Some (ws2, hs2)"
    using d2 by (simp only: size_tail_iff) auto
  ultimately have "(ws2, hs2) = (ws, hs)"
    using e4 by simp
  with found show ?thesis
    by simp
qed









subsection \<open>\<^verbatim>\<open>set_pts_list\<close> and \<^verbatim>\<open>get_frame_num\<close>\<close>

text \<open>
  A match of \<^verbatim>\<open>pts_time:([\d.]+) \<close> at the head of a byte string: the prefix, a run of
  digits and dots that is not empty, and a space.
\<close>

lemma pts_group_at_iff:
  "pts_group_at s = Some (g, rest) \<longleftrightarrow>
     g \<noteq> [] \<and> list_all is_digit_or_dot g \<and> s = ''pts_time:'' @ g @ '' '' @ rest"
proof
  assume a: "pts_group_at s = Some (g, rest)"
  then obtain r where r: "strip_prefix ''pts_time:'' s = Some r"
    by (auto simp: pts_group_at_def split: option.splits)
  from a r have d: "dropWhile is_digit_or_dot r = CHR '' '' # rest"
    and g: "g = takeWhile is_digit_or_dot r" and ne: "g \<noteq> []"
    by (auto simp: pts_group_at_def Let_def split: list.splits if_splits)
  have "r = g @ CHR '' '' # rest"
    using takeWhile_dropWhile_id [of is_digit_or_dot r] d g by simp
  moreover have "s = ''pts_time:'' @ r"
    using r by (simp only: strip_prefix_iff)
  moreover have "list_all is_digit_or_dot g"
    unfolding g list_all_iff by (auto dest: set_takeWhileD)
  ultimately show "g \<noteq> [] \<and> list_all is_digit_or_dot g \<and> s = ''pts_time:'' @ g @ '' '' @ rest"
    using ne by simp
next
  assume b: "g \<noteq> [] \<and> list_all is_digit_or_dot g \<and> s = ''pts_time:'' @ g @ '' '' @ rest"
  then have dg: "\<And>c. c \<in> set g \<Longrightarrow> is_digit_or_dot c"
    by (simp add: list_all_iff)
  let ?r = "g @ CHR '' '' # rest"
  have sp: "\<not> is_digit_or_dot CHR '' ''"
    by (simp add: is_digit_or_dot_def is_digit_def)
  have p: "strip_prefix ''pts_time:'' s = Some ?r"
    unfolding strip_prefix_iff using b by simp
  have d: "dropWhile is_digit_or_dot ?r = CHR '' '' # rest" "takeWhile is_digit_or_dot ?r = g"
    using dg sp by (simp_all add: dropWhile_append2 takeWhile_append2)
  have ne: "g \<noteq> []"
    using b by blast
  have "pts_group_at s =
          (let g' = takeWhile is_digit_or_dot ?r
           in case dropWhile is_digit_or_dot ?r of
                [] \<Rightarrow> None
              | c # rest' \<Rightarrow> if g' \<noteq> [] \<and> c = CHR '' '' then Some (g', rest') else None)"
    unfolding pts_group_at_def by (simp only: p option.case)
  also have "\<dots> = Some (g, rest)"
    unfolding d Let_def using ne by simp
  finally show "pts_group_at s = Some (g, rest)" .
qed

lemmas pts_eval = finditer_groups.simps pts_group_at_def is_digit_or_dot_def is_digit_def



lemma set_pts_list_success:
  assumes "set_pts_list env self = (Inr u, self1, calls)"
  shows "\<exists>ts. self1 = self\<lparr>pts_list := Some ts\<rparr>
           \<and> float_list env (finditer_groups
                 (stderr (decoder env (showinfo_command (file self) (vsync self) Null_sink))))
               = Some ts"
  using assms
  by (auto simp: set_pts_list_def run_def Let_def split: sum.splits option.splits if_splits)

text \<open>
  C1. Let the timestamps be those already on the object, or, when \<^verbatim>\<open>pts_list\<close> is
  \<open>None\<close>, those \<^verbatim>\<open>set_pts_list\<close> has just stored there. For every index \<open>i\<close>
  that is a position of that list (from the front, or from the end when below 0),
  \<^verbatim>\<open>get_frame_num\<close> is \<^verbatim>\<open>get_frame_time\<close> at the timestamp stored at \<open>i\<close>:
  the same outcome and the same object, after the calls of \<^verbatim>\<open>set_pts_list\<close>.
\<close>

theorem get_frame_num_by_timestamp:
  assumes "(if pts_list self = None then set_pts_list env self else (Inr (), self, []))
             = (Inr (), self1, calls1)"
    and "pts_list self1 = Some ts"
    and "- int (length ts) \<le> i"
    and "i < int (length ts)"
  shows "get_frame_num env self i =
           (case get_frame_time env self1
                   (ts ! nat (if i < 0 then int (length ts) + i else i)) of
              (r, self2, calls2) \<Rightarrow> (r, self2, calls1 @ calls2))"
proof -
  have "py_index ts i = Inr (ts ! nat (if i < 0 then int (length ts) + i else i))"
    using assms(3,4) by (simp add: py_index_def Let_def)
  with assms(1,2) show ?thesis
    by (simp add: get_frame_num_def)
qed

theorem get_frame_num_by_timestamp_witness:
  "(if pts_list (sample_video 2) = None
    then set_pts_list (sample_env [] ''abc'' ''n:0 pts_time:0.5 pos'') (sample_video 2)
    else (Inr (), sample_video 2, []))
     = (Inr (), (sample_video 2)\<lparr>pts_list := Some [1 / 2]\<rparr>,
        [Run (showinfo_command ''cat.mp4'' 0 Null_sink) False True])
   \<and> pts_list ((sample_video 2)\<lparr>pts_list := Some [1 / 2]\<rparr>) = Some [1 / 2]
   \<and> - int (length [1 / 2 :: real]) \<le> 0
   \<and> 0 < int (length [1 / 2 :: real])
   \<and> get_frame_num (sample_env [] ''abc'' ''n:0 pts_time:0.5 pos'') (sample_video 2) 0 =
       (Inr \<lparr>shape = [1, 1, 3], data = ''abc''\<rparr>,
        (sample_video 2)\<lparr>pts_list := Some [1 / 2]\<rparr>,
        [Run (showinfo_command ''cat.mp4'' 0 Null_sink) False True,
         Run (seek_command ''cat.mp4'' (1 / 2) ''error'') True False])"
proof -
  let ?env = "sample_env [] ''abc'' ''n:0 pts_time:0.5 pos''"
  let ?self1 = "(sample_video 2)\<lparr>pts_list := Some [1 / 2]\<rparr>"
  let ?calls1 = "[Run (showinfo_command ''cat.mp4'' 0 Null_sink) False True]"
  have h1: "(if pts_list (sample_video 2) = None then set_pts_list ?env (sample_video 2)
             else (Inr (), sample_video 2, [])) = (Inr (), ?self1, ?calls1)"
    by (simp add: set_pts_list_def run_def Let_def sample_defs pts_eval)
  have h2: "pts_list ?self1 = Some [1 / 2]"
    by simp
  have h3: "- int (length [1 / 2 :: real]) \<le> 0"
    by simp
  have h4: "0 < int (length [1 / 2 :: real])"
    by simp
  have e: "get_frame_time ?env ?self1
             ([1 / 2] ! nat (if (0 :: int) < 0 then int (length [1 / 2 :: real]) + 0 else 0))
           = (Inr \<lparr>shape = [1, 1, 3], data = ''abc''\<rparr>, ?self1,
              [Run (seek_command ''cat.mp4'' (1 / 2) ''error'') True False])"
    by (simp add: get_frame_time_def run_def Let_def sample_defs array_eval)
  have r: "get_frame_num ?env (sample_video 2) 0 =
             (Inr \<lparr>shape = [1, 1, 3], data = ''abc''\<rparr>, ?self1,
              ?calls1 @ [Run (seek_command ''cat.mp4'' (1 / 2) ''error'') True False])"
    using get_frame_num_by_timestamp [OF h1 h2 h3 h4] by (simp only: e prod.case)
  from h1 h2 h3 h4 r show ?thesis
    by (simp only: append.simps)
qed

subsection \<open>\<^verbatim>\<open>iter_all_frames\<close>\<close>



text \<open>
  Whenever the loop of \<^verbatim>\<open>iter_all_frames\<close> ends without an exception on an object
  whose \<^verbatim>\<open>pts_list\<close> is \<open>None\<close>, and the error pipe holds a match of the pattern,
  the generator raises \<^verbatim>\<open>NameError\<close> and \<^verbatim>\<open>pts_list\<close> stays \<open>None\<close>.
\<close>

lemma iter_all_frames_name_error:
  assumes "pts_list self = None"
    and "decoder env (raw_video_command (file self) (vsync self) (Some (loglevel self))) = p"
    and "read_frames (width self) (height self) (stdout p) = (frames, None)"
    and "finditer_groups (stderr p) \<noteq> []"
  shows "iter_all_frames env self =
           (frames, Inl NameError, self,
            [Run_async (raw_video_command (file self) (vsync self) (Some (loglevel self)))
               True True])"
  using assms by (simp add: iter_all_frames_def Let_def)

text \<open>
  C3 fails on the code. On an object with \<^verbatim>\<open>pts_list\<close> \<open>None\<close>, a frame of three
  bytes, a pipe of one frame and an error pipe that reads \<^verbatim>\<open>pts_time:0.5 \<close>, the
  generator yields the frame, then raises \<^verbatim>\<open>NameError\<close>, and \<^verbatim>\<open>pts_list\<close> is
  still \<open>None\<close>.
\<close>

theorem iter_all_frames_raises_name_error:
  "iter_all_frames (sample_env [] ''abc'' ''pts_time:0.5 '') (sample_video 2) =
     ([\<lparr>shape = [1, 1, 3], data = ''abc''\<rparr>], Inl NameError, sample_video 2,
      [Run_async (raw_video_command ''cat.mp4'' 0 (Some ''error'')) True True])
   \<and> pts_list (sample_video 2) = None
   \<and> finditer_groups ''pts_time:0.5 '' = [''0.5'']"
  by (simp add: iter_all_frames_def Let_def sample_defs read_frames.simps next_frame_def
      array_eval pts_eval)

subsection \<open>\<^verbatim>\<open>get_random_frame\<close>\<close>

lemma get_frame_time_triple:
  "get_frame_time env self t =
     (fst (get_frame_time env self t), self,
      [Run (seek_command (file self) t (loglevel self)) True False])"
  using get_frame_time_object [of env self t] get_frame_time_calls [of env self t]
  by (metis prod.collapse)

lemma random_loop_step:
  "random_loop env self g calls =
     (case fst (get_frame_time env self (g 0 * duration self)) of
        Inl x \<Rightarrow>
          if x = ValueError
          then random_loop env self (\<lambda>n. g (Suc n))
                 (calls @ [Run (seek_command (file self) (g 0 * duration self) (loglevel self))
                             True False])
          else Some (Inl x, self, \<lambda>n. g (Suc n),
                 calls @ [Run (seek_command (file self) (g 0 * duration self) (loglevel self))
                            True False])
      | Inr frame \<Rightarrow>
          Some (Inr (g 0 * duration self, frame), self, \<lambda>n. g (Suc n),
            calls @ [Run (seek_command (file self) (g 0 * duration self) (loglevel self))
                       True False]))"
  apply (subst random_loop.simps)
  apply (subst get_frame_time_triple)
  apply (simp add: Let_def split: sum.splits)
  done

lemma map_upt_shift:
  "f 0 # map (\<lambda>j. f (Suc j)) [0..<k] = map f [0..<Suc k]"
proof -
  have "map f [0..<Suc k] = f 0 # map f [Suc 0..<Suc k]"
    by (simp add: upt_conv_Cons del: upt_Suc)
  also have "[Suc 0..<Suc k] = map Suc [0..<k]"
    by (simp add: map_Suc_upt del: upt_Suc)
  finally show ?thesis by (simp add: comp_def)
qed

lemma random_loop_Some:
  assumes "random_loop env self g calls = Some res"
  shows "fst (snd res) = self
       \<and> (\<exists>k. (\<forall>j<k. fst (get_frame_time env self (g j * duration self)) = Inl ValueError)
              \<and> fst (get_frame_time env self (g k * duration self)) \<noteq> Inl ValueError
              \<and> fst res = (case fst (get_frame_time env self (g k * duration self)) of
                              Inl x \<Rightarrow> Inl x
                            | Inr frame \<Rightarrow> Inr (g k * duration self, frame))
              \<and> fst (snd (snd res)) = (\<lambda>n. g (Suc k + n))
              \<and> snd (snd (snd res)) =
                  calls @ map (\<lambda>j. Run (seek_command (file self) (g j * duration self)
                                           (loglevel self)) True False) [0..<Suc k])"
  using assms
proof (induction env self g calls res rule: random_loop.raw_induct [rotated 1, consumes 1])
  case (1 loop env self g calls res)
  let ?t = "g 0 * duration self"
  let ?c = "\<lambda>j. Run (seek_command (file self) (g j * duration self) (loglevel self)) True False"
  let ?g' = "\<lambda>n. g (Suc n)"
  have body: "(case fst (get_frame_time env self ?t) of
        Inl x \<Rightarrow> if x = ValueError then loop env self ?g' (calls @ [?c 0])
                 else Some (Inl x, self, ?g', calls @ [?c 0])
      | Inr frame \<Rightarrow> Some (Inr (?t, frame), self, ?g', calls @ [?c 0])) = Some res"
    using 1(2)
    apply (subst (asm) get_frame_time_triple)
    apply (cases "fst (get_frame_time env self ?t)")
    apply (simp_all add: Let_def)
    done
  show ?case
  proof (cases "fst (get_frame_time env self ?t) = Inl ValueError")
    case True
    with body have rec: "loop env self ?g' (calls @ [?c 0]) = Some res"
      by simp
    from 1(1) [OF rec] obtain k where
      obj: "fst (snd res) = self"
      and fails: "\<forall>j<k. fst (get_frame_time env self (g (Suc j) * duration self)) = Inl ValueError"
      and last: "fst (get_frame_time env self (g (Suc k) * duration self)) \<noteq> Inl ValueError"
      and out: "fst res = (case fst (get_frame_time env self (g (Suc k) * duration self)) of
                              Inl x \<Rightarrow> Inl x
                            | Inr frame \<Rightarrow> Inr (g (Suc k) * duration self, frame))"
      and gen: "fst (snd (snd res)) = (\<lambda>n. g (Suc (Suc k + n)))"
      and calls: "snd (snd (snd res)) = (calls @ [?c 0]) @ map (\<lambda>j. ?c (Suc j)) [0..<Suc k]"
      by auto
    have f2: "\<forall>j<Suc k. fst (get_frame_time env self (g j * duration self)) = Inl ValueError"
    proof (intro allI impI)
      fix j assume "j < Suc k"
      then show "fst (get_frame_time env self (g j * duration self)) = Inl ValueError"
        using True fails by (cases j) auto
    qed
    have c2: "snd (snd (snd res)) = calls @ map ?c [0..<Suc (Suc k)]"
      using calls map_upt_shift [of ?c "Suc k"] by simp
    show ?thesis
      apply (rule conjI [OF obj])
      apply (rule exI [of _ "Suc k"])
      using f2 last out gen c2 apply simp
      done
  next
    case False
    with body have res: "res = (case fst (get_frame_time env self ?t) of
         Inl x \<Rightarrow> (Inl x, self, ?g', calls @ [?c 0])
       | Inr frame \<Rightarrow> (Inr (?t, frame), self, ?g', calls @ [?c 0]))"
      by (auto split: sum.splits if_splits)
    show ?thesis
      apply (rule conjI)
      using res apply (simp split: sum.splits)
      apply (rule exI [of _ 0])
      using res False apply (simp split: sum.splits)
      done
  qed
qed

text \<open>
  The loop need not end: when \<^verbatim>\<open>get_frame_time\<close> raises \<^verbatim>\<open>ValueError\<close> at every
  number the generator returns, \<^verbatim>\<open>get_random_frame\<close> never returns.
\<close>

lemma random_loop_never:
  assumes "\<forall>k. fst (get_frame_time env self (g k * duration self)) = Inl ValueError"
  shows "random_loop env self g calls = None"
proof (cases "random_loop env self g calls")
  case None
  then show ?thesis .
next
  case (Some res)
  from random_loop_Some [OF Some] obtain k where
    "fst (get_frame_time env self (g k * duration self)) \<noteq> Inl ValueError"
    by blast
  with assms show ?thesis by simp
qed




subsection \<open>What the methods store\<close>








subsection \<open>\<^verbatim>\<open>CatVideo.__init__\<close>\<close>


lemma first_video_Some:
  "first_video streams = Inr (Some s)
     \<Longrightarrow> s \<in> set streams \<and> stream_codec_type s = Some ''video''"
  by (induction streams) (auto split: option.splits if_splits)






text \<open>
  A run on a report of two streams, the second a video stream rotated by a quarter turn:
  the audio stream is passed over and the two sizes are swapped.
\<close>

lemma init_rotated_example:
  "init (sample_env
           [\<lparr>stream_codec_type = Some ''audio'', stream_width = None, stream_height = None,
              stream_duration = Some ''2'', stream_tags = None\<rparr>,
            \<lparr>stream_codec_type = Some ''video'', stream_width = Some 4, stream_height = Some 2,
              stream_duration = Some ''2'', stream_tags = Some [''rotate'' \<mapsto> ''90'']\<rparr>]
           [] []) ''cat.mp4'' 0 ''error''
     = Inr \<lparr>file = ''cat.mp4'', width = 2, height = 4, duration = 2, vsync = 0,
            loglevel = ''error'', pts_list = None\<rparr>"
  by (simp add: init_def rotated_def sample_env_def sample_float_def)

subsection \<open>\<^verbatim>\<open>iter_all_frames_ffmpeg\<close>\<close>










subsection \<open>\<^verbatim>\<open>get_all_frames_ffmpeg\<close>\<close>








end
